theory Spec2Isabelle
  imports Complex_Main
begin

section \<open>Numbers, errors and vectors\<close>

text \<open>
  Python floats are modelled by the real numbers they denote, Python ints by \<open>int\<close>;
  float rounding is modelled in one place only, the operator \<^verbatim>\<open>%\<close> of texture sampling,
  where the result's range depends on it. Every exception the modelled code can raise is a value of \<open>error\<close>; a fallible
  function returns \<open>error + 'a\<close> with \<open>Inl\<close> for the exception.
\<close>

datatype error = ZeroDivisionError | IndexError

text \<open>\<^verbatim>\<open>int(x)\<close> on a float truncates toward zero.\<close>

definition py_int :: "real \<Rightarrow> int" where
  "py_int x = (if 0 \<le> x then \<lfloor>x\<rfloor> else - \<lfloor>- x\<rfloor>)"

text \<open>\<^verbatim>\<open>a / b\<close> on floats raises \<^verbatim>\<open>ZeroDivisionError\<close> when \<open>b\<close> is zero.\<close>

definition float_div :: "real \<Rightarrow> real \<Rightarrow> error + real" where
  "float_div a b = (if b = 0 then Inl ZeroDivisionError else Inr (a / b))"

text \<open>
  Modelled from the spec: the module \<^verbatim>\<open>vector\<close> (class \<^verbatim>\<open>Vec2\<close>) is imported by the
  source but is not part of it. The spec gives a pair of floats with componentwise
  addition, subtraction and scaling, and \<open>angle() = atan2(y, x)\<close> with range \<open>(-\<pi>, \<pi>]\<close>.
\<close>

datatype Vec2 = Vec2 (vec_x: real) (vec_y: real)

definition vec_add :: "Vec2 \<Rightarrow> Vec2 \<Rightarrow> Vec2" where
  "vec_add a b = Vec2 (vec_x a + vec_x b) (vec_y a + vec_y b)"

definition vec_sub :: "Vec2 \<Rightarrow> Vec2 \<Rightarrow> Vec2" where
  "vec_sub a b = Vec2 (vec_x a - vec_x b) (vec_y a - vec_y b)"

definition vec_scale :: "real \<Rightarrow> Vec2 \<Rightarrow> Vec2" where
  "vec_scale k a = Vec2 (k * vec_x a) (k * vec_y a)"

definition atan2 :: "real \<Rightarrow> real \<Rightarrow> real" where
  "atan2 b a =
     (if 0 < a then arctan (b / a)
      else if a < 0 then (if 0 \<le> b then arctan (b / a) + pi else arctan (b / a) - pi)
      else if 0 < b then pi / 2
      else if b < 0 then - (pi / 2)
      else 0)"

definition angle :: "Vec2 \<Rightarrow> real" where
  "angle v = atan2 (vec_y v) (vec_x v)"

section \<open>The grid map and the map query\<close>

text \<open>
  In \<^verbatim>\<open>pyraycaster\<close> the grid is an object of the class \<^verbatim>\<open>Map\<close> of the module
  \<^verbatim>\<open>mapstuff\<close>, which the source imports but does not contain; \<^verbatim>\<open>map_square\<close> uses
  its attributes \<^verbatim>\<open>width\<close> and \<^verbatim>\<open>height\<close> and its method \<^verbatim>\<open>get_wall\<close>, which are
  taken as parameters here.
\<close>

record Map =
  width :: int
  height :: int
  get_wall :: "int \<Rightarrow> int \<Rightarrow> int"

definition map_square :: "Map \<Rightarrow> real \<Rightarrow> real \<Rightarrow> int" where
  "map_square m x y =
     (let mx = py_int x; my = py_int y
      in if mx < 0 \<or> mx \<ge> width m \<or> my < 0 \<or> my \<ge> height m then 255
         else get_wall m mx my)"

text \<open>
  In \<^verbatim>\<open>pywolf\<close> the grid is a list of rows of bytes built by \<^verbatim>\<open>load_map\<close> from rows
  of characters; row \<open>0\<close> is the last row of the text. Indexing a Python list out of
  range raises \<^verbatim>\<open>IndexError\<close>; a negative index counts from the end.
\<close>

definition list_get :: "'a list \<Rightarrow> int \<Rightarrow> error + 'a" where
  "list_get xs i =
     (let n = int (length xs); j = (if i < 0 then i + n else i)
      in if j < 0 \<or> n \<le> j then Inl IndexError else Inr (xs ! nat j))"

definition translate :: "char \<Rightarrow> int" where
  "translate c =
     (if of_char CHR ''0'' \<le> (of_char c :: nat) \<and> (of_char c :: nat) \<le> of_char CHR ''9''
      then int (of_char c) - int (of_char CHR ''0'') else 0)"

definition load_map :: "string list \<Rightarrow> int list list" where
  "load_map cmap = map (map translate) (rev cmap)"

definition wolf_map_square :: "int list list \<Rightarrow> real \<Rightarrow> real \<Rightarrow> error + int" where
  "wolf_map_square grid x y =
     (let mx = py_int x; my = py_int y
      in case list_get grid 0 of
           Inl e \<Rightarrow> (if mx < 0 then Inr 255 else Inl e)
         | Inr row0 \<Rightarrow>
             if mx < 0 \<or> mx \<ge> int (length row0) \<or> my < 0 \<or> my \<ge> int (length grid)
             then Inr 255
             else (case list_get grid my of
                     Inl e \<Rightarrow> Inl e
                   | Inr row \<Rightarrow> list_get row mx))"

section \<open>Distance fog\<close>

definition BLACK_DISTANCE :: real where
  "BLACK_DISTANCE = 4.0"

definition brightness :: "real \<Rightarrow> real" where
  "brightness distance = max 0.0 (1.0 - distance / BLACK_DISTANCE)"

section \<open>Exact wall-edge intersection\<close>

text \<open>
  The enumeration \<^verbatim>\<open>Intersection\<close> comes from the absent module \<^verbatim>\<open>mapstuff\<close>; the
  source uses its four members.
\<close>

datatype Intersection = TOP | BOTTOM | LEFT | RIGHT

text \<open>
  \<^verbatim>\<open>intersection_with_mapsquare_accurate(camera, cast_ray)\<close> returns the struck edge,
  the texture coordinate and the intersection point. The two divisions of the source
  are kept fallible, behind the source's guards.
\<close>

definition intersection_with_mapsquare_accurate ::
  "Vec2 \<Rightarrow> Vec2 \<Rightarrow> error + (Intersection \<times> real \<times> Vec2)" where
  "intersection_with_mapsquare_accurate camera cast_ray =
     (let direction = vec_sub cast_ray camera;
          square_center = Vec2 (of_int (py_int (vec_x cast_ray)) + 0.5)
                               (of_int (py_int (vec_y cast_ray)) + 0.5);
          intersects =
            (if vec_x camera < vec_x square_center then
               (if vec_y camera < vec_y square_center then
                  (let vertex_angle =
                         angle (vec_sub (vec_add square_center (Vec2 (- 0.5) (- 0.5))) camera)
                   in if angle direction < vertex_angle then BOTTOM else LEFT)
                else
                  (let vertex_angle =
                         angle (vec_sub (vec_add square_center (Vec2 (- 0.5) 0.5)) camera)
                   in if angle direction < vertex_angle then LEFT else TOP))
             else
               (if vec_y camera < vec_y square_center then
                  (let v = vec_sub (vec_add square_center (Vec2 0.5 (- 0.5))) camera;
                       vertex = Vec2 (- vec_x v) (vec_y v);
                       positive_dir = Vec2 (- vec_x direction) (vec_y direction)
                   in if angle positive_dir < angle vertex then BOTTOM else RIGHT)
                else
                  (let v = vec_sub (vec_add square_center (Vec2 0.5 0.5)) camera;
                       vertex = Vec2 (- vec_x v) (vec_y v);
                       positive_dir = Vec2 (- vec_x direction) (vec_y direction)
                   in if angle positive_dir < angle vertex then RIGHT else TOP)))
      in case intersects of
           TOP \<Rightarrow>
             (let iy = vec_y square_center + 0.5
              in case (if vec_y direction = 0 then Inr 0.0
                       else map_sum id (\<lambda>q. vec_x camera + q)
                              (float_div ((iy - vec_y camera) * vec_x direction) (vec_y direction)))
                 of Inl e \<Rightarrow> Inl e | Inr ix \<Rightarrow> Inr (TOP, - ix, Vec2 ix iy))
         | BOTTOM \<Rightarrow>
             (let iy = vec_y square_center - 0.5
              in case (if vec_y direction = 0 then Inr 0.0
                       else map_sum id (\<lambda>q. vec_x camera + q)
                              (float_div ((iy - vec_y camera) * vec_x direction) (vec_y direction)))
                 of Inl e \<Rightarrow> Inl e | Inr ix \<Rightarrow> Inr (BOTTOM, ix, Vec2 ix iy))
         | LEFT \<Rightarrow>
             (let ix = vec_x square_center - 0.5
              in case (if vec_x direction = 0 then Inr 0.0
                       else map_sum id (\<lambda>q. vec_y camera + q)
                              (float_div ((ix - vec_x camera) * vec_y direction) (vec_x direction)))
                 of Inl e \<Rightarrow> Inl e | Inr iy \<Rightarrow> Inr (LEFT, - iy, Vec2 ix iy))
         | RIGHT \<Rightarrow>
             (let ix = vec_x square_center + 0.5
              in case (if vec_x direction = 0 then Inr 0.0
                       else map_sum id (\<lambda>q. vec_y camera + q)
                              (float_div ((ix - vec_x camera) * vec_y direction) (vec_x direction)))
                 of Inl e \<Rightarrow> Inl e | Inr iy \<Rightarrow> Inr (RIGHT, iy, Vec2 ix iy)))"




section \<open>The renderer state\<close>

text \<open>
  A z-buffer cell holds a Python float that is either finite or \<^verbatim>\<open>float("inf")\<close>.
\<close>

datatype depth = Finite real | Infinity

text \<open>\<^verbatim>\<open>z < d\<close> for a finite \<open>z\<close> and a stored depth \<open>d\<close>, and \<^verbatim>\<open>d1 <= d2\<close> on stored depths.\<close>

fun depth_less :: "real \<Rightarrow> depth \<Rightarrow> bool" where
  "depth_less z (Finite d) = (z < d)"
| "depth_less z Infinity = True"

fun depth_le :: "depth \<Rightarrow> depth \<Rightarrow> bool" where
  "depth_le (Finite a) (Finite b) = (a \<le> b)"
| "depth_le (Finite a) Infinity = True"
| "depth_le Infinity (Finite b) = False"
| "depth_le Infinity Infinity = True"

type_synonym rgba = "int \<times> int \<times> int \<times> int"

text \<open>
  The fields of \<^verbatim>\<open>Raycaster\<close> that the modelled methods read or write. The pixel
  store \<^verbatim>\<open>image_buf\<close> belongs to the imaging library and is a total store here.
\<close>

record Raycaster =
  pixwidth :: int
  pixheight :: int
  zbuffer :: "depth list"
  image_buf :: "int \<times> int \<Rightarrow> rgba"
  player_position :: Vec2
  player_direction :: Vec2
  camera_plane :: Vec2
  world_map :: Map

section \<open>Ray marching\<close>

definition step_size :: real where
  "step_size = 0.02"

function cast_ray_loop ::
  "Raycaster \<Rightarrow> Vec2 \<Rightarrow> real \<Rightarrow> Vec2 \<Rightarrow> error + (int \<times> real \<times> real \<times> Intersection)" where
  "cast_ray_loop rc ray_step distance ray =
     (if distance \<le> BLACK_DISTANCE then
        (if map_square (world_map rc) (vec_x (vec_add ray ray_step)) (vec_y (vec_add ray ray_step)) \<noteq> 0
         then (case intersection_with_mapsquare_accurate (player_position rc) (vec_add ray ray_step) of
                 Inl e \<Rightarrow> Inl e
               | Inr (side, tx, p) \<Rightarrow>
                   Inr (map_square (world_map rc) (vec_x (vec_add ray ray_step))
                          (vec_y (vec_add ray ray_step)),
                        distance + step_size, tx, side))
         else cast_ray_loop rc ray_step (distance + step_size) (vec_add ray ray_step))
      else Inr (- 1, distance, 0.0, TOP))"
  by pat_completeness auto
termination
proof (relation "measure (\<lambda>(rc, ray_step, distance, ray).
                   nat (\<lfloor>(BLACK_DISTANCE - distance) / step_size\<rfloor> + 1))")
  show "wf (measure (\<lambda>(rc, ray_step, distance, ray).
                   nat (\<lfloor>(BLACK_DISTANCE - distance) / step_size\<rfloor> + 1)))"
    by simp
next
  fix rc :: Raycaster and ray_step ray :: Vec2 and distance :: real
  assume le: "distance \<le> BLACK_DISTANCE"
  have "(BLACK_DISTANCE - (distance + step_size)) / step_size
          = (BLACK_DISTANCE - distance) / step_size - 1"
    by (simp add: step_size_def field_simps)
  then have "\<lfloor>(BLACK_DISTANCE - (distance + step_size)) / step_size\<rfloor>
          = \<lfloor>(BLACK_DISTANCE - distance) / step_size\<rfloor> - 1"
    by simp
  moreover have "0 \<le> \<lfloor>(BLACK_DISTANCE - distance) / step_size\<rfloor>"
    using le by (simp add: step_size_def)
  ultimately show "((rc, ray_step, distance + step_size, vec_add ray ray_step),
                    (rc, ray_step, distance, ray))
        \<in> measure (\<lambda>(rc, ray_step, distance, ray).
                   nat (\<lfloor>(BLACK_DISTANCE - distance) / step_size\<rfloor> + 1))"
    by simp
qed

declare cast_ray_loop.simps [simp del]

definition cast_ray ::
  "Raycaster \<Rightarrow> int \<Rightarrow> error + (int \<times> real \<times> real \<times> Intersection)" where
  "cast_ray rc pixel_x =
     (case float_div (of_int pixel_x) (of_int (pixwidth rc)) of
        Inl e \<Rightarrow> Inl e
      | Inr q \<Rightarrow>
          (let camera_plane_ray = vec_scale ((q - 0.5) * 2) (camera_plane rc);
               ray_dir = vec_add (player_direction rc) camera_plane_ray;
               ray_step = vec_scale step_size ray_dir
           in cast_ray_loop rc ray_step 0.0 (player_position rc)))"


section \<open>Depth-tested pixel writes\<close>

text \<open>\<^verbatim>\<open>xs[i] = v\<close> on a Python list.\<close>

definition list_set :: "'a list \<Rightarrow> int \<Rightarrow> 'a \<Rightarrow> error + 'a list" where
  "list_set xs i v =
     (let n = int (length xs); j = (if i < 0 then i + n else i)
      in if j < 0 \<or> n \<le> j then Inl IndexError else Inr (xs[nat j := v]))"

definition color_brightness :: "rgba \<Rightarrow> real \<Rightarrow> rgba" where
  "color_brightness c b =
     (case c of (r, g, bl, a) \<Rightarrow>
        (py_int (of_int r * b), py_int (of_int g * b), py_int (of_int bl * b), a))"

text \<open>
  \<^verbatim>\<open>set_pixel(x, y, z, brightness, rgba)\<close>. The argument \<^verbatim>\<open>rgba\<close> is an optional
  4-tuple; \<^verbatim>\<open>None\<close> is the only value of that type that Python takes as false.
\<close>

definition set_pixel ::
  "Raycaster \<Rightarrow> int \<Rightarrow> int \<Rightarrow> real \<Rightarrow> real \<Rightarrow> rgba option \<Rightarrow> error + Raycaster" where
  "set_pixel rc x y z b rgba =
     (case rgba of
        None \<Rightarrow> Inr rc
      | Some c \<Rightarrow>
          (case list_get (zbuffer rc) (x + y * pixwidth rc) of
             Inl e \<Rightarrow> Inl e
           | Inr d \<Rightarrow>
               if depth_less z d then
                 (case list_set (zbuffer rc) (x + y * pixwidth rc) (Finite z) of
                    Inl e \<Rightarrow> Inl e
                  | Inr zb \<Rightarrow>
                      Inr (rc\<lparr>zbuffer := zb,
                              image_buf := (image_buf rc)
                                ((x, y) := (if 0 < z \<and> b \<noteq> 1.0 then color_brightness c b else c))\<rparr>))
               else Inr rc))"

text \<open>
  The constructor sets \<^verbatim>\<open>empty_zbuffer = [float("inf")] * pixheight * pixwidth\<close>, and
  \<^verbatim>\<open>tick\<close> begins with \<^verbatim>\<open>self.zbuffer[:] = self.empty_zbuffer\<close>.
\<close>

definition empty_zbuffer :: "Raycaster \<Rightarrow> depth list" where
  "empty_zbuffer rc = concat (replicate (nat (pixwidth rc)) (replicate (nat (pixheight rc)) Infinity))"

definition clear_zbuffer :: "Raycaster \<Rightarrow> Raycaster" where
  "clear_zbuffer rc = rc\<lparr>zbuffer := empty_zbuffer rc\<rparr>"

text \<open>
  After the reset, \<^verbatim>\<open>tick\<close> draws the wall columns, the floor and ceiling and the
  sprites; these change the z-buffer through \<^verbatim>\<open>set_pixel\<close> only. The calls of
  \<^verbatim>\<open>set_pixel\<close> that a tick makes are a list of argument tuples, and \<open>tick_states\<close>
  lists the renderer state before the first call and after each call that returns.
\<close>

type_synonym pixel_write = "int \<times> int \<times> real \<times> real \<times> rgba option"

fun write_states :: "Raycaster \<Rightarrow> pixel_write list \<Rightarrow> Raycaster list" where
  "write_states rc [] = [rc]"
| "write_states rc ((x, y, z, b, rgba) # ws) =
     rc # (case set_pixel rc x y z b rgba of Inl e \<Rightarrow> [] | Inr rc' \<Rightarrow> write_states rc' ws)"

definition tick_states :: "Raycaster \<Rightarrow> pixel_write list \<Rightarrow> Raycaster list" where
  "tick_states rc ws = write_states (clear_zbuffer rc) ws"

fun draw_black_rows :: "Raycaster \<Rightarrow> int \<Rightarrow> real \<Rightarrow> int list \<Rightarrow> error + Raycaster" where
  "draw_black_rows rc x distance [] = Inr rc"
| "draw_black_rows rc x distance (y # ys) =
     (case set_pixel rc x y distance 1.0 (Some (0, 0, 0, 0)) of
        Inl e \<Rightarrow> Inl e
      | Inr rc' \<Rightarrow> draw_black_rows rc' x distance ys)"

definition draw_black_column :: "Raycaster \<Rightarrow> int \<Rightarrow> int \<Rightarrow> real \<Rightarrow> error + Raycaster" where
  "draw_black_column rc x ceiling_size distance =
     (let start_y = max 0 ceiling_size;
          num_pixels = pixheight rc - 2 * start_y
      in draw_black_rows rc x distance [start_y .. start_y + num_pixels - 1])"

section \<open>Player movement\<close>


section \<open>Texture sampling\<close>

text \<open>
  \<^verbatim>\<open>Texture.sample\<close> of \<^verbatim>\<open>pywolf\<close> wraps its coordinates with the float operator
  \<^verbatim>\<open>x % 1.0\<close>. CPython computes the C function \<^verbatim>\<open>fmod(x, 1.0)\<close>, which is exact and has
  the sign of \<open>x\<close>, and, when that remainder is negative, adds \<open>1.0\<close> to it; this
  addition is a float addition and rounds to the nearest double. The rounding is what
  decides the range of the result, so it is modelled here: \<open>round_to_double\<close> is
  rounding to a 53-bit significand, ties to even (overflow and subnormals do not arise
  for the sums in question, which lie between 0 and 1). The multiplication by
  \<^verbatim>\<open>SIZE = 64\<close> is exact on doubles.
\<close>

definition round_half_even :: "real \<Rightarrow> int" where
  "round_half_even q =
     (let f = \<lfloor>q\<rfloor>; d = q - of_int f
      in if d < 1 / 2 then f else if 1 / 2 < d then f + 1 else if even f then f else f + 1)"

definition round_to_double :: "real \<Rightarrow> real" where
  "round_to_double r =
     (if r = 0 then 0
      else (let e = \<lfloor>log 2 \<bar>r\<bar>\<rfloor> - 52
            in of_int (round_half_even (r / 2 powr of_int e)) * 2 powr of_int e))"

definition float_mod1 :: "real \<Rightarrow> real" where
  "float_mod1 x =
     (let m = x - of_int (py_int x)
      in if m \<noteq> 0 then (if m < 0 then round_to_double (m + 1.0) else m) else 0.0)"

text \<open>
  The texture is a \<^verbatim>\<open>SIZE\<close> by \<^verbatim>\<open>SIZE\<close> image of the imaging library (the constructor
  rejects any other size); its pixel access counts a negative index from the end and
  raises \<^verbatim>\<open>IndexError\<close> outside the image.
\<close>

definition SIZE :: int where
  "SIZE = 64"

type_synonym rgb = "int \<times> int \<times> int"

record Texture =
  image_tex :: "int \<times> int \<Rightarrow> rgb"

definition pixel_access :: "(int \<times> int \<Rightarrow> rgb) \<Rightarrow> int \<Rightarrow> int \<Rightarrow> error + rgb" where
  "pixel_access img ix iy =
     (let jx = (if ix < 0 then ix + SIZE else ix); jy = (if iy < 0 then iy + SIZE else iy)
      in if jx < 0 \<or> SIZE \<le> jx \<or> jy < 0 \<or> SIZE \<le> jy then Inl IndexError
         else Inr (img (jx, jy)))"

definition sample :: "Texture \<Rightarrow> real \<Rightarrow> real \<Rightarrow> error + rgb" where
  "sample tex x y =
     pixel_access (image_tex tex) (py_int (float_mod1 x * of_int SIZE)) (py_int (float_mod1 y * of_int SIZE))"

section \<open>Fixtures\<close>

definition corridor_map :: Map where
  "corridor_map = \<lparr>width = 3, height = 6, get_wall = (\<lambda>mx my. if mx = 2 then 1 else 0)\<rparr>"

definition demo_rc :: Raycaster where
  "demo_rc = \<lparr>pixwidth = 2, pixheight = 2,
               zbuffer = [Infinity, Infinity, Infinity, Infinity],
               image_buf = (\<lambda>p. (0, 0, 0, 0)),
               player_position = Vec2 0.5 0.5,
               player_direction = Vec2 0 1,
               camera_plane = Vec2 1 0,
               world_map = corridor_map\<rparr>"

definition demo_writes :: "pixel_write list" where
  "demo_writes = [(0, 0, 3, 1, Some (9, 9, 9, 9)), (0, 0, 5, 1, Some (7, 7, 7, 7)), (1, 0, 2, 1, None)]"

definition black_rc :: Raycaster where
  "black_rc = \<lparr>pixwidth = 1, pixheight = 2,
               zbuffer = [Finite 1, Infinity],
               image_buf = (\<lambda>p. (5, 5, 5, 5)),
               player_position = Vec2 0.5 0.5,
               player_direction = Vec2 0 1,
               camera_plane = Vec2 1 0,
               world_map = corridor_map\<rparr>"

definition demo_map :: Map where
  "demo_map = \<lparr>width = 2, height = 2, get_wall = (\<lambda>mx my. if mx = 0 \<and> my = 1 then 2 else 0)\<rparr>"

section \<open>Properties\<close>

subsection \<open>Truncation and list access\<close>

lemma py_int_of_int: "py_int (of_int n) = n"
  by (simp add: py_int_def)

lemma py_int_neg_iff: "py_int x < 0 \<longleftrightarrow> x \<le> - 1"
  unfolding py_int_def by (auto simp: floor_less_iff le_floor_iff)

lemma py_int_ge_iff: "w \<le> py_int x \<longleftrightarrow> of_int w \<le> x" if "0 < w"
proof (cases "0 \<le> x")
  case True
  then show ?thesis by (simp add: py_int_def le_floor_iff)
next
  case False
  then have "0 \<le> \<lfloor>- x\<rfloor>" by simp
  then have "\<not> w \<le> - \<lfloor>- x\<rfloor>" using that by linarith
  moreover have "\<not> of_int w \<le> x" using False that by linarith
  ultimately show ?thesis using False by (simp only: py_int_def if_False)
qed

lemma py_int_small_neg: "- 1 < x \<Longrightarrow> x < 0 \<Longrightarrow> py_int x = 0"
  unfolding py_int_def by (auto simp: floor_eq_iff)

lemma translate_range: "0 \<le> translate c \<and> translate c \<le> 9"
  by (auto simp: translate_def)

lemma list_get_in_range: "0 \<le> i \<Longrightarrow> i < int (length xs) \<Longrightarrow> list_get xs i = Inr (xs ! nat i)"
  by (simp add: list_get_def)

subsection \<open>The map query\<close>

text \<open>
  C4. At an integer cell coordinate inside \<open>[0, width) \<times> [0, height)\<close> the map query
  returns the id stored for that cell, and outside that range it returns 255. This holds
  for the query over the \<^verbatim>\<open>Map\<close> object and for the query over the rows that
  \<^verbatim>\<open>load_map\<close> builds from a non-empty rectangular map text. Every id that
  \<^verbatim>\<open>load_map\<close> stores is the translation of a character, which lies between 0 and 9,
  so 255 is none of them and is not 0.
\<close>

theorem map_square_bounds_checked:
  fixes x y :: int
  assumes "cmap \<noteq> []" and "\<forall>row \<in> set cmap. length row = length (last cmap)"
  shows "(0 \<le> x \<and> x < width m \<and> 0 \<le> y \<and> y < height m
            \<longrightarrow> map_square m (of_int x) (of_int y) = get_wall m x y)
       \<and> (\<not> (0 \<le> x \<and> x < width m \<and> 0 \<le> y \<and> y < height m)
            \<longrightarrow> map_square m (of_int x) (of_int y) = 255)
       \<and> (0 \<le> x \<and> x < int (length (last cmap)) \<and> 0 \<le> y \<and> y < int (length cmap)
            \<longrightarrow> wolf_map_square (load_map cmap) (of_int x) (of_int y)
                  = Inr (load_map cmap ! nat y ! nat x)
                \<and> load_map cmap ! nat y ! nat x = translate (rev cmap ! nat y ! nat x)
                \<and> load_map cmap ! nat y ! nat x \<noteq> 255)
       \<and> (\<not> (0 \<le> x \<and> x < int (length (last cmap)) \<and> 0 \<le> y \<and> y < int (length cmap))
            \<longrightarrow> wolf_map_square (load_map cmap) (of_int x) (of_int y) = Inr 255)
       \<and> (\<forall>c. 0 \<le> translate c \<and> translate c \<le> 9)"
proof -
  have pyr: "map_square m (of_int x) (of_int y)
      = (if 0 \<le> x \<and> x < width m \<and> 0 \<le> y \<and> y < height m then get_wall m x y else 255)"
    by (auto simp: map_square_def py_int_of_int)
  have row0: "list_get (load_map cmap) 0 = Inr (map translate (last cmap))"
    using assms(1)
    by (simp add: list_get_def load_map_def hd_rev hd_map hd_conv_nth [symmetric]
        rev_map [symmetric] last_map)
  have len: "length (load_map cmap) = length cmap"
    by (simp add: load_map_def)
  have out: "wolf_map_square (load_map cmap) (of_int x) (of_int y) = Inr 255"
    if "\<not> (0 \<le> x \<and> x < int (length (last cmap)) \<and> 0 \<le> y \<and> y < int (length cmap))"
    using that by (auto simp: wolf_map_square_def py_int_of_int row0 len)
  have inb: "wolf_map_square (load_map cmap) (of_int x) (of_int y)
                  = Inr (load_map cmap ! nat y ! nat x)
                \<and> load_map cmap ! nat y ! nat x = translate (rev cmap ! nat y ! nat x)
                \<and> load_map cmap ! nat y ! nat x \<noteq> 255"
    if b: "0 \<le> x" "x < int (length (last cmap))" "0 \<le> y" "y < int (length cmap)"
  proof -
    have ny: "nat y < length cmap" using b by simp
    then have "rev cmap ! nat y \<in> set cmap"
      by (metis length_rev nth_mem set_rev)
    then have rl: "length (rev cmap ! nat y) = length (last cmap)"
      using assms(2) by blast
    have rowy: "load_map cmap ! nat y = map translate (rev cmap ! nat y)"
      using ny by (simp add: load_map_def)
    have nx: "nat x < length (rev cmap ! nat y)" using b rl by simp
    have cell: "load_map cmap ! nat y ! nat x = translate (rev cmap ! nat y ! nat x)"
      using nx by (simp add: rowy)
    have g1: "list_get (load_map cmap) y = Inr (load_map cmap ! nat y)"
      using b by (simp add: list_get_in_range len)
    have g2: "list_get (load_map cmap ! nat y) x = Inr (load_map cmap ! nat y ! nat x)"
      using b rl by (simp add: list_get_in_range rowy)
    have "wolf_map_square (load_map cmap) (of_int x) (of_int y)
            = Inr (load_map cmap ! nat y ! nat x)"
      using b by (simp add: wolf_map_square_def py_int_of_int row0 len g1 g2)
    moreover have "load_map cmap ! nat y ! nat x \<noteq> 255"
      using translate_range [of "rev cmap ! nat y ! nat x"] cell by simp
    ultimately show ?thesis using cell by simp
  qed
  show ?thesis
    using pyr out inb translate_range by auto
qed

theorem map_square_bounds_checked_witness:
  "[''12'', ''.3''] \<noteq> []
   \<and> length ''12'' = length (last [''12'', ''.3''])
   \<and> length ''.3'' = length (last [''12'', ''.3''])
   \<and> map_square demo_map (of_int 0) (of_int 1) = 2
   \<and> map_square demo_map (of_int 2) (of_int 1) = 255
   \<and> wolf_map_square (load_map [''12'', ''.3'']) (of_int 1) (of_int 0) = Inr 3
   \<and> wolf_map_square (load_map [''12'', ''.3'']) (of_int 1) (of_int 2) = Inr 255"
  using map_square_bounds_checked [where cmap = "[''12'', ''.3'']" and x = 0 and y = 1 and m = demo_map]
    map_square_bounds_checked [where cmap = "[''12'', ''.3'']" and x = 2 and y = 1 and m = demo_map]
    map_square_bounds_checked [where cmap = "[''12'', ''.3'']" and x = 1 and y = 0 and m = demo_map]
    map_square_bounds_checked [where cmap = "[''12'', ''.3'']" and x = 1 and y = 2 and m = demo_map]
  by (simp add: demo_map_def load_map_def translate_def)

text \<open>
  C10. The map query truncates its float coordinates toward zero. On a map with at
  least one cell, the query returns 255 from its bounds check exactly when a coordinate
  is at most \<open>-1\<close> or at least the grid extent; everywhere else it returns the stored id
  of the cell at the truncated coordinates, and a coordinate strictly between \<open>-1\<close> and 0
  truncates to row or column 0.
\<close>

theorem map_square_truncates_toward_zero:
  assumes "0 < width m" and "0 < height m"
  shows "map_square m x y =
           (if x \<le> - 1 \<or> of_int (width m) \<le> x \<or> y \<le> - 1 \<or> of_int (height m) \<le> y
            then 255 else get_wall m (py_int x) (py_int y))
         \<and> (- 1 < x \<and> x < 0 \<longrightarrow> py_int x = 0)
         \<and> (- 1 < y \<and> y < 0 \<longrightarrow> py_int y = 0)"
  using assms
  by (simp add: map_square_def Let_def py_int_neg_iff py_int_ge_iff py_int_small_neg
      not_le not_less)

theorem map_square_truncates_toward_zero_witness:
  "0 < width demo_map \<and> 0 < height demo_map
   \<and> map_square demo_map (- 1 / 2) (3 / 2) = 2
   \<and> map_square demo_map (- 1) (3 / 2) = 255
   \<and> map_square demo_map 2 (3 / 2) = 255"
  using map_square_truncates_toward_zero [of demo_map "- 1 / 2" "3 / 2"]
    map_square_truncates_toward_zero [of demo_map "- 1" "3 / 2"]
    map_square_truncates_toward_zero [of demo_map 2 "3 / 2"]
  by (simp add: demo_map_def py_int_def)

subsection \<open>Collision\<close>













subsection \<open>Edge intersection\<close>

text \<open>
  C2, as amended. The exact intersection computation never raises: each division is
  behind its guard. When the divisor component of the direction is zero, the degenerate
  intercept coordinate is the constant 0.0 of the guard (not a coordinate of the camera):
  \<open>ix = 0\<close> for a TOP or BOTTOM edge with \<open>direction.y = 0\<close>, \<open>iy = 0\<close> for a LEFT or RIGHT
  edge with \<open>direction.x = 0\<close>.
\<close>

theorem intersection_axis_aligned_fallback:
  fixes camera cast_ray :: Vec2
  defines "direction \<equiv> vec_sub cast_ray camera"
  shows "\<exists>side tx p. intersection_with_mapsquare_accurate camera cast_ray = Inr (side, tx, p)
           \<and> ((side = TOP \<or> side = BOTTOM) \<and> vec_y direction = 0 \<longrightarrow> vec_x p = 0)
           \<and> ((side = LEFT \<or> side = RIGHT) \<and> vec_x direction = 0 \<longrightarrow> vec_y p = 0)"
  unfolding direction_def intersection_with_mapsquare_accurate_def Let_def float_div_def
  by (simp split: Intersection.splits)

theorem intersection_axis_aligned_fallback_witness:
  "intersection_with_mapsquare_accurate (Vec2 (- 2) (- 0.5)) (Vec2 0.5 (- 0.5))
     = Inr (BOTTOM, 0, Vec2 0 0)
   \<and> vec_y (vec_sub (Vec2 0.5 (- 0.5)) (Vec2 (- 2) (- 0.5))) = 0"
  using intersection_axis_aligned_fallback [of "Vec2 0.5 (- 0.5)" "Vec2 (- 2) (- 0.5)"]
  by (simp add: intersection_with_mapsquare_accurate_def Let_def float_div_def vec_sub_def
      vec_add_def angle_def atan2_def py_int_def)

text \<open>
  The claim as stated fails for a camera at \<open>(1, 0.5)\<close> looking straight up at the cell
  \<open>[1, 2] \<times> [2, 3]\<close>: the LEFT edge is chosen, \<open>direction.x = 0\<close>, and the intercept is
  \<open>iy = 0\<close>, not \<open>camera.y = 0.5\<close>.
\<close>

theorem intersection_fallback_counterexample:
  "intersection_with_mapsquare_accurate (Vec2 1 0.5) (Vec2 1 2.5) = Inr (LEFT, 0, Vec2 1 0)
   \<and> vec_x (vec_sub (Vec2 1 2.5) (Vec2 1 0.5)) = 0
   \<and> vec_y (Vec2 1 0) \<noteq> vec_y (Vec2 1 0.5)"
  by (simp add: intersection_with_mapsquare_accurate_def Let_def float_div_def vec_sub_def
      vec_add_def angle_def atan2_def py_int_def)



















subsection \<open>Ray marching\<close>









subsection \<open>Depth buffer\<close>

lemma depth_le_refl: "depth_le d d"
  by (cases d) simp_all

lemma depth_le_trans: "depth_le a b \<Longrightarrow> depth_le b c \<Longrightarrow> depth_le a c"
  by (cases a; cases b; cases c) simp_all

lemma depth_less_le: "depth_less z d \<Longrightarrow> depth_le (Finite z) d"
  by (cases d) simp_all

lemma set_pixel_zbuffer:
  assumes "set_pixel rc x y z b rgba = Inr rc'"
  shows "length (zbuffer rc') = length (zbuffer rc)
       \<and> (\<forall>i < length (zbuffer rc). zbuffer rc' ! i \<noteq> zbuffer rc ! i \<longrightarrow>
             zbuffer rc' ! i = Finite z \<and> depth_less z (zbuffer rc ! i))"
proof (cases rgba)
  case None
  then show ?thesis using assms by (simp add: set_pixel_def)
next
  case (Some c)
  define n where "n = int (length (zbuffer rc))"
  define i0 where "i0 = x + y * pixwidth rc"
  define j where "j = (if i0 < 0 then i0 + n else i0)"
  show ?thesis
  proof (cases "j < 0 \<or> n \<le> j")
    case True
    then have "list_get (zbuffer rc) i0 = Inl IndexError"
      unfolding list_get_def Let_def j_def n_def by (auto split: if_splits)
    then show ?thesis using assms Some
      by (simp add: set_pixel_def i0_def)
  next
    case False
    then have g: "list_get (zbuffer rc) i0 = Inr (zbuffer rc ! nat j)"
      unfolding list_get_def Let_def j_def n_def by (auto split: if_splits)
    have s: "list_set (zbuffer rc) i0 v = Inr ((zbuffer rc)[nat j := v])" for v
      using False unfolding list_set_def Let_def j_def n_def by (auto split: if_splits)
    show ?thesis
    proof (cases "depth_less z (zbuffer rc ! nat j)")
      case True
      then have "zbuffer rc' = (zbuffer rc)[nat j := Finite z]"
        using assms Some g s by (auto simp: set_pixel_def i0_def)
      moreover have "nat j < length (zbuffer rc)" using \<open>\<not> (j < 0 \<or> n \<le> j)\<close> unfolding n_def by linarith
      ultimately show ?thesis using True by (auto simp: nth_list_update)
    next
      case False
      then have "rc' = rc" using assms Some g by (simp add: set_pixel_def i0_def)
      then show ?thesis by simp
    qed
  qed
qed

lemma write_states_nonempty: "write_states rc ws \<noteq> [] \<and> write_states rc ws ! 0 = rc"
  by (cases ws) auto

lemma write_states_step:
  "Suc k < length (write_states rc ws) \<Longrightarrow>
   k < length ws \<and>
   (case ws ! k of (x, y, z, b, rgba) \<Rightarrow>
      set_pixel (write_states rc ws ! k) x y z b rgba = Inr (write_states rc ws ! Suc k))"
proof (induction ws arbitrary: rc k)
  case Nil
  then show ?case by simp
next
  case (Cons w ws)
  obtain x y z b rgba where w: "w = (x, y, z, b, rgba)" by (cases w) auto
  show ?case
  proof (cases "set_pixel rc x y z b rgba")
    case (Inl e)
    then show ?thesis using Cons.prems by (simp add: w)
  next
    case (Inr rc')
    show ?thesis
    proof (cases k)
      case 0
      then show ?thesis using Inr write_states_nonempty [of rc' ws] by (simp add: w)
    next
      case (Suc k')
      then have "Suc k' < length (write_states rc' ws)" using Cons.prems Inr by (simp add: w)
      from Cons.IH [OF this] show ?thesis using Inr Suc by (simp add: w)
    qed
  qed
qed


lemma write_states_monotone:
  "j \<le> k \<Longrightarrow> k < length (write_states rc ws) \<Longrightarrow>
   length (zbuffer (write_states rc ws ! k)) = length (zbuffer (write_states rc ws ! j))
   \<and> (\<forall>i < length (zbuffer (write_states rc ws ! j)).
         depth_le (zbuffer (write_states rc ws ! k) ! i) (zbuffer (write_states rc ws ! j) ! i))"
proof (induction k)
  case 0
  then show ?case by (simp add: depth_le_refl)
next
  case (Suc k)
  show ?case
  proof (cases "j = Suc k")
    case True
    then show ?thesis by (simp add: depth_le_refl)
  next
    case False
    then have jk: "j \<le> k" "k < length (write_states rc ws)" using Suc.prems by simp_all
    note ih = Suc.IH [OF jk]
    obtain x y z b rgba where w: "ws ! k = (x, y, z, b, rgba)" by (cases "ws ! k") auto
    have st: "set_pixel (write_states rc ws ! k) x y z b rgba = Inr (write_states rc ws ! Suc k)"
      using write_states_step [OF Suc.prems(2)] w by simp
    note sp = set_pixel_zbuffer [OF st]
    have len: "length (zbuffer (write_states rc ws ! Suc k)) = length (zbuffer (write_states rc ws ! j))"
      using sp ih by simp
    moreover have "depth_le (zbuffer (write_states rc ws ! Suc k) ! i) (zbuffer (write_states rc ws ! j) ! i)"
      if i: "i < length (zbuffer (write_states rc ws ! j))" for i
    proof -
      have a: "depth_le (zbuffer (write_states rc ws ! k) ! i) (zbuffer (write_states rc ws ! j) ! i)"
        using ih i by simp
      have ik: "i < length (zbuffer (write_states rc ws ! k))" using ih i by simp
      have "depth_le (zbuffer (write_states rc ws ! Suc k) ! i) (zbuffer (write_states rc ws ! k) ! i)"
      proof (cases "zbuffer (write_states rc ws ! Suc k) ! i = zbuffer (write_states rc ws ! k) ! i")
        case True
        then show ?thesis by (simp add: depth_le_refl)
      next
        case False
        then have "zbuffer (write_states rc ws ! Suc k) ! i = Finite z"
          "depth_less z (zbuffer (write_states rc ws ! k) ! i)"
          using sp ik by blast+
        then show ?thesis by (simp add: depth_less_le)
      qed
      then show ?thesis using a by (rule depth_le_trans)
    qed
    ultimately show ?thesis by simp
  qed
qed

lemma empty_zbuffer_all_infinity: "\<forall>d \<in> set (empty_zbuffer rc). d = Infinity"
  by (auto simp: empty_zbuffer_def)

text \<open>
  C5. A tick starts from a z-buffer in which every cell is \<open>+\<infinity>\<close>. Over the states a
  tick passes through (before the first pixel write and after each one), every cell's
  depth never grows, the size of the buffer is fixed, and a write changes a cell only to
  the depth \<open>z\<close> it was called with and only if \<open>z\<close> is strictly nearer than the stored
  depth.
\<close>

theorem zbuffer_monotone_within_tick:
  fixes rc :: Raycaster and ws :: "pixel_write list"
  defines "t \<equiv> tick_states rc ws"
  shows "t \<noteq> [] \<and> zbuffer (t ! 0) = empty_zbuffer rc
       \<and> (\<forall>d \<in> set (zbuffer (t ! 0)). d = Infinity)
       \<and> (\<forall>j k. j \<le> k \<and> k < length t \<longrightarrow>
              length (zbuffer (t ! k)) = length (zbuffer (t ! j))
            \<and> (\<forall>i < length (zbuffer (t ! j)). depth_le (zbuffer (t ! k) ! i) (zbuffer (t ! j) ! i)))
       \<and> (\<forall>k. Suc k < length t \<longrightarrow>
              k < length ws
            \<and> (case ws ! k of (x, y, z, b, rgba) \<Rightarrow>
                  set_pixel (t ! k) x y z b rgba = Inr (t ! Suc k)
                \<and> (\<forall>i < length (zbuffer (t ! k)).
                      zbuffer (t ! Suc k) ! i \<noteq> zbuffer (t ! k) ! i \<longrightarrow>
                      zbuffer (t ! Suc k) ! i = Finite z \<and> depth_less z (zbuffer (t ! k) ! i))))"
proof -
  have t0: "t \<noteq> []" "t ! 0 = clear_zbuffer rc"
    using write_states_nonempty [of "clear_zbuffer rc" ws] by (simp_all add: t_def tick_states_def)
  then have z0: "zbuffer (t ! 0) = empty_zbuffer rc" by (simp add: clear_zbuffer_def)
  have inf: "\<forall>d \<in> set (zbuffer (t ! 0)). d = Infinity"
    unfolding z0 by (rule empty_zbuffer_all_infinity)
  have mono: "\<forall>j k. j \<le> k \<and> k < length t \<longrightarrow>
              length (zbuffer (t ! k)) = length (zbuffer (t ! j))
            \<and> (\<forall>i < length (zbuffer (t ! j)). depth_le (zbuffer (t ! k) ! i) (zbuffer (t ! j) ! i))"
    unfolding t_def tick_states_def using write_states_monotone by blast
  have step: "k < length ws
            \<and> (case ws ! k of (x, y, z, b, rgba) \<Rightarrow>
                  set_pixel (t ! k) x y z b rgba = Inr (t ! Suc k)
                \<and> (\<forall>i < length (zbuffer (t ! k)).
                      zbuffer (t ! Suc k) ! i \<noteq> zbuffer (t ! k) ! i \<longrightarrow>
                      zbuffer (t ! Suc k) ! i = Finite z \<and> depth_less z (zbuffer (t ! k) ! i)))"
    if "Suc k < length t" for k
  proof -
    obtain x y z b rgba where w: "ws ! k = (x, y, z, b, rgba)" by (cases "ws ! k") auto
    have a: "k < length ws" "set_pixel (t ! k) x y z b rgba = Inr (t ! Suc k)"
      using write_states_step [of k "clear_zbuffer rc" ws] that w by (simp_all add: t_def tick_states_def)
    show ?thesis using a set_pixel_zbuffer [OF a(2)] by (simp add: w)
  qed
  show ?thesis using t0 z0 inf mono step by blast
qed

theorem zbuffer_monotone_within_tick_witness:
  "map zbuffer (tick_states demo_rc demo_writes)
     = [[Infinity, Infinity, Infinity, Infinity], [Finite 3, Infinity, Infinity, Infinity],
        [Finite 3, Infinity, Infinity, Infinity], [Finite 3, Infinity, Infinity, Infinity]]
   \<and> (1::nat) \<le> 2 \<and> 2 < length (tick_states demo_rc demo_writes)
   \<and> depth_le (zbuffer (tick_states demo_rc demo_writes ! 2) ! 0)
               (zbuffer (tick_states demo_rc demo_writes ! 1) ! 0)
   \<and> depth_less 3 (zbuffer (tick_states demo_rc demo_writes ! 0) ! 0)"
  using zbuffer_monotone_within_tick [of demo_rc demo_writes]
  by (simp add: tick_states_def clear_zbuffer_def empty_zbuffer_def demo_rc_def demo_writes_def
      set_pixel_def list_get_def list_set_def Let_def numeral_2_eq_2)


lemma pixel_index_bounds:
  fixes x y pw ph :: int
  assumes "0 \<le> x" "x < pw" "0 \<le> y" "y < ph"
  shows "0 \<le> x + y * pw \<and> x + y * pw < pw * ph"
proof -
  have "0 \<le> y * pw" using assms by simp
  moreover have "y * pw \<le> (ph - 1) * pw" using assms by (intro mult_right_mono) auto
  ultimately show ?thesis using assms by (simp add: algebra_simps)
qed

lemma set_pixel_black:
  assumes "0 \<le> x" "x < pixwidth rc" "0 \<le> y" "y < pixheight rc"
    and "length (zbuffer rc) = nat (pixwidth rc * pixheight rc)"
  shows "set_pixel rc x y d 1.0 (Some (0, 0, 0, 0)) =
           Inr (if depth_less d (zbuffer rc ! nat (x + y * pixwidth rc))
                then rc\<lparr>zbuffer := (zbuffer rc)[nat (x + y * pixwidth rc) := Finite d],
                        image_buf := (image_buf rc)((x, y) := (0, 0, 0, 0))\<rparr>
                else rc)"
proof -
  have b: "0 \<le> x + y * pixwidth rc" "x + y * pixwidth rc < pixwidth rc * pixheight rc"
    using pixel_index_bounds [OF assms(1-4)] by simp_all
  then have g: "list_get (zbuffer rc) (x + y * pixwidth rc) = Inr (zbuffer rc ! nat (x + y * pixwidth rc))"
    using assms(5) by (simp add: list_get_def)
  have s: "list_set (zbuffer rc) (x + y * pixwidth rc) v = Inr ((zbuffer rc)[nat (x + y * pixwidth rc) := v])" for v
    using b assms(5) by (simp add: list_set_def)
  show ?thesis by (simp add: set_pixel_def g s)
qed


lemma pixel_index_neq:
  fixes x y y' pw :: int
  assumes "0 \<le> x" "x < pw" "0 \<le> y" "0 \<le> y'" "y \<noteq> y'"
  shows "nat (x + y * pw) \<noteq> nat (x + y' * pw)"
proof
  assume e: "nat (x + y * pw) = nat (x + y' * pw)"
  have "0 \<le> x + y * pw" "0 \<le> x + y' * pw" using assms by simp_all
  then have "x + y * pw = x + y' * pw" using e by linarith
  then show False using assms by simp
qed

lemma draw_black_rows_effect:
  assumes "0 \<le> x" "x < pixwidth rc"
    and "length (zbuffer rc) = nat (pixwidth rc * pixheight rc)"
    and "\<forall>y \<in> set ys. 0 \<le> y \<and> y < pixheight rc" "distinct ys"
  shows "\<exists>rc'. draw_black_rows rc x d ys = Inr rc'
     \<and> pixwidth rc' = pixwidth rc \<and> pixheight rc' = pixheight rc
     \<and> length (zbuffer rc') = length (zbuffer rc)
     \<and> (\<forall>i < length (zbuffer rc). zbuffer rc' ! i =
           (if (\<exists>y \<in> set ys. i = nat (x + y * pixwidth rc)) \<and> depth_less d (zbuffer rc ! i)
            then Finite d else zbuffer rc ! i))
     \<and> (\<forall>u v. image_buf rc' (u, v) =
           (if u = x \<and> v \<in> set ys \<and> depth_less d (zbuffer rc ! nat (x + v * pixwidth rc))
            then (0, 0, 0, 0) else image_buf rc (u, v)))"
  using assms
proof (induction ys arbitrary: rc)
  case Nil
  then show ?case by simp
next
  case (Cons y ys)
  define pw where "pw = pixwidth rc"
  define zb where "zb = zbuffer rc"
  define i0 where "i0 = nat (x + y * pw)"
  define rc1 where "rc1 = (if depth_less d (zb ! i0)
                then rc\<lparr>zbuffer := zb[i0 := Finite d],
                        image_buf := (image_buf rc)((x, y) := (0, 0, 0, 0))\<rparr>
                else rc)"
  have y: "0 \<le> y" "y < pixheight rc" "y \<notin> set ys" using Cons.prems by simp_all
  have sp: "set_pixel rc x y d 1.0 (Some (0, 0, 0, 0)) = Inr rc1"
    unfolding rc1_def i0_def pw_def zb_def
    by (rule set_pixel_black) (use Cons.prems y in simp_all)
  have f1: "pixwidth rc1 = pw" "pixheight rc1 = pixheight rc" "length (zbuffer rc1) = length zb"
    by (simp_all add: rc1_def pw_def zb_def)
  have i0b: "i0 < length zb"
    using pixel_index_bounds [OF Cons.prems(1,2) y(1,2)] Cons.prems(3)
    by (simp add: i0_def pw_def zb_def)
  have z1: "zbuffer rc1 ! i = (if i = i0 \<and> depth_less d (zb ! i0) then Finite d else zb ! i)"
    if "i < length zb" for i
    using that i0b by (simp add: rc1_def zb_def nth_list_update)
  have im1: "image_buf rc1 (u, v) = (if u = x \<and> v = y \<and> depth_less d (zb ! i0) then (0, 0, 0, 0)
                                     else image_buf rc (u, v))" for u v
    by (simp add: rc1_def)
  have neq: "nat (x + v * pw) \<noteq> i0" if "v \<in> set ys" for v
  proof -
    have "0 \<le> v" "v \<noteq> y" using that Cons.prems y by auto
    then show ?thesis unfolding i0_def
      using pixel_index_neq [of x pw v y] Cons.prems(1,2) y(1) by (simp add: pw_def)
  qed
  have vb: "nat (x + v * pw) < length zb" if "v \<in> set ys" for v
  proof -
    have "0 \<le> v" "v < pixheight rc" using that Cons.prems by auto
    from pixel_index_bounds [OF Cons.prems(1,2) this] Cons.prems(3) show ?thesis
      by (simp add: pw_def zb_def)
  qed
  have "\<exists>rc'. draw_black_rows rc1 x d ys = Inr rc'
     \<and> pixwidth rc' = pixwidth rc1 \<and> pixheight rc' = pixheight rc1
     \<and> length (zbuffer rc') = length (zbuffer rc1)
     \<and> (\<forall>i < length (zbuffer rc1). zbuffer rc' ! i =
           (if (\<exists>y \<in> set ys. i = nat (x + y * pixwidth rc1)) \<and> depth_less d (zbuffer rc1 ! i)
            then Finite d else zbuffer rc1 ! i))
     \<and> (\<forall>u v. image_buf rc' (u, v) =
           (if u = x \<and> v \<in> set ys \<and> depth_less d (zbuffer rc1 ! nat (x + v * pixwidth rc1))
            then (0, 0, 0, 0) else image_buf rc1 (u, v)))"
    by (rule Cons.IH) (use Cons.prems f1 in \<open>simp_all add: pw_def zb_def\<close>)
  then obtain rc' where r: "draw_black_rows rc1 x d ys = Inr rc'"
    and p: "pixwidth rc' = pw" "pixheight rc' = pixheight rc" "length (zbuffer rc') = length zb"
    and z: "\<And>i. i < length zb \<Longrightarrow> zbuffer rc' ! i =
           (if (\<exists>y \<in> set ys. i = nat (x + y * pw)) \<and> depth_less d (zbuffer rc1 ! i)
            then Finite d else zbuffer rc1 ! i)"
    and im: "\<And>u v. image_buf rc' (u, v) =
           (if u = x \<and> v \<in> set ys \<and> depth_less d (zbuffer rc1 ! nat (x + v * pw))
            then (0, 0, 0, 0) else image_buf rc1 (u, v))"
    unfolding f1 by blast
  have res: "draw_black_rows rc x d (y # ys) = Inr rc'" using sp r by simp
  have Z: "zbuffer rc' ! i =
           (if (\<exists>v \<in> set (y # ys). i = nat (x + v * pw)) \<and> depth_less d (zb ! i)
            then Finite d else zb ! i)" if i: "i < length zb" for i
  proof (cases "i = i0")
    case True
    then have "\<not> (\<exists>v \<in> set ys. i = nat (x + v * pw))" using neq by auto
    then show ?thesis using z [OF i] z1 [OF i] True by (auto simp: i0_def)
  next
    case False
    then have "(\<exists>v \<in> set (y # ys). i = nat (x + v * pw)) \<longleftrightarrow> (\<exists>v \<in> set ys. i = nat (x + v * pw))"
      by (auto simp: i0_def)
    then show ?thesis using z [OF i] z1 [OF i] False by simp
  qed
  have I: "image_buf rc' (u, v) =
           (if u = x \<and> v \<in> set (y # ys) \<and> depth_less d (zb ! nat (x + v * pw))
            then (0, 0, 0, 0) else image_buf rc (u, v))" for u v
  proof (cases "v \<in> set ys")
    case True
    then have "zbuffer rc1 ! nat (x + v * pw) = zb ! nat (x + v * pw)" "v \<noteq> y"
      using z1 [OF vb [OF True]] neq [OF True] y by auto
    then show ?thesis using im [of u v] im1 [of u v] True by simp
  next
    case False
    then show ?thesis using im [of u v] im1 [of u v] by (auto simp: i0_def)
  qed
  show ?case
    using res p Z I unfolding pw_def zb_def by blast
qed


text \<open>
  C6, as amended. \<^verbatim>\<open>draw_black_column\<close> passes the 4-tuple \<open>(0, 0, 0, 0)\<close> to
  \<^verbatim>\<open>set_pixel\<close>, which takes any tuple as a colour, so the column is a depth-tested write
  of black at the miss distance: for a column \<open>x\<close> on the screen, exactly the cells of
  the column's vertical extent whose stored depth is farther than the distance get that
  distance as their depth and \<open>(0, 0, 0, 0)\<close> as their pixel; every other cell and pixel
  is unchanged.
\<close>

theorem draw_black_column_depth_tested:
  assumes "0 \<le> x" "x < pixwidth rc"
    and "length (zbuffer rc) = nat (pixwidth rc * pixheight rc)"
  shows "\<exists>rc'. draw_black_column rc x ceiling_size distance = Inr rc'
     \<and> length (zbuffer rc') = length (zbuffer rc)
     \<and> (\<forall>i < length (zbuffer rc). zbuffer rc' ! i =
           (if (\<exists>y. max 0 ceiling_size \<le> y \<and> y < pixheight rc - max 0 ceiling_size
                    \<and> i = nat (x + y * pixwidth rc))
               \<and> depth_less distance (zbuffer rc ! i)
            then Finite distance else zbuffer rc ! i))
     \<and> (\<forall>u v. image_buf rc' (u, v) =
           (if u = x \<and> max 0 ceiling_size \<le> v \<and> v < pixheight rc - max 0 ceiling_size
               \<and> depth_less distance (zbuffer rc ! nat (x + v * pixwidth rc))
            then (0, 0, 0, 0) else image_buf rc (u, v)))"
proof -
  define s where "s = max 0 ceiling_size"
  define ys where "ys = [s .. s + (pixheight rc - 2 * s) - 1]"
  have mem: "v \<in> set ys \<longleftrightarrow> s \<le> v \<and> v < pixheight rc - s" for v
    by (auto simp: ys_def)
  have "\<forall>y \<in> set ys. 0 \<le> y \<and> y < pixheight rc" "distinct ys"
    by (auto simp: ys_def s_def)
  from draw_black_rows_effect [OF assms this, of distance]
  obtain rc' where r: "draw_black_rows rc x distance ys = Inr rc'"
    and l: "length (zbuffer rc') = length (zbuffer rc)"
    and z: "\<forall>i < length (zbuffer rc). zbuffer rc' ! i =
           (if (\<exists>y \<in> set ys. i = nat (x + y * pixwidth rc)) \<and> depth_less distance (zbuffer rc ! i)
            then Finite distance else zbuffer rc ! i)"
    and im: "\<forall>u v. image_buf rc' (u, v) =
           (if u = x \<and> v \<in> set ys \<and> depth_less distance (zbuffer rc ! nat (x + v * pixwidth rc))
            then (0, 0, 0, 0) else image_buf rc (u, v))"
    by blast
  have bex: "(\<exists>y \<in> set ys. i = nat (x + y * pixwidth rc))
      \<longleftrightarrow> (\<exists>y. s \<le> y \<and> y < pixheight rc - s \<and> i = nat (x + y * pixwidth rc))" for i
    by (auto simp: mem)
  have "draw_black_column rc x ceiling_size distance = Inr rc'"
    using r by (simp add: draw_black_column_def Let_def s_def ys_def)
  then show ?thesis
    using l z im unfolding bex mem s_def by (intro exI [of _ rc']) simp
qed

theorem draw_black_column_depth_tested_witness:
  "(0::int) \<le> 0 \<and> 0 < pixwidth black_rc
   \<and> length (zbuffer black_rc) = nat (pixwidth black_rc * pixheight black_rc)
   \<and> map_sum id zbuffer (draw_black_column black_rc 0 0 4.02) = Inr [Finite 1, Finite 4.02]
   \<and> map_sum id (\<lambda>r. (image_buf r (0, 0), image_buf r (0, 1))) (draw_black_column black_rc 0 0 4.02)
       = Inr ((5, 5, 5, 5), (0, 0, 0, 0))"
  using draw_black_column_depth_tested [of 0 black_rc 0 "4.02"]
  by (simp add: black_rc_def draw_black_column_def Let_def set_pixel_def list_get_def list_set_def
      upto.simps)

text \<open>
  The claim as stated fails on a screen of one column and two rows whose lower cell
  holds \<open>+\<infinity>\<close>: the black column stores the distance 4.02 there.
\<close>

theorem draw_black_column_advances_depth_counterexample:
  "zbuffer black_rc = [Finite 1, Infinity]
   \<and> map_sum id zbuffer (draw_black_column black_rc 0 0 4.02) = Inr [Finite 1, Finite 4.02]"
  by (simp add: black_rc_def draw_black_column_def Let_def set_pixel_def list_get_def list_set_def
      upto.simps)


subsection \<open>Texture sampling\<close>

lemma round_just_below_one: "round_to_double (1 - 1 / 2 ^ 60) = 1"
proof -
  define r :: real where "r = 1 - 1 / 2 ^ 60"
  have r: "1 / 2 \<le> r" "r < 1" "0 < r" by (simp_all add: r_def)
  have "\<lfloor>log 2 r\<rfloor> = - 1"
    using r by (simp add: floor_log_eq_powr_iff powr_minus)
  then have e: "\<lfloor>log 2 \<bar>r\<bar>\<rfloor> - 52 = - 53" using r by simp
  have p: "2 powr of_int (- 53 :: int) = (1 / 2 ^ 53 :: real)"
    by (simp add: powr_neg_numeral)
  have q: "r / (1 / 2 ^ 53) = 2 ^ 53 - 1 / 2 ^ 7"
    by (simp add: r_def)
  have fl: "\<lfloor>(2 ^ 53 - 1 / 2 ^ 7 :: real)\<rfloor> = 2 ^ 53 - 1"
    by (simp add: floor_eq_iff)
  have "round_half_even (2 ^ 53 - 1 / 2 ^ 7) = 2 ^ 53"
    unfolding round_half_even_def Let_def fl by simp
  then have "round_to_double r = 1"
    using r unfolding round_to_double_def Let_def e p q by simp
  then show ?thesis by (simp add: r_def)
qed

text \<open>
  C9. The claim asks that \<^verbatim>\<open>sample\<close> wrap every input into \<open>[0, 1)\<close> and index within
  \<open>[0, S - 1]\<close>. For the input \<open>u = -2\<^sup>-\<^sup>6\<^sup>0\<close> (a double) the remainder
  \<open>fmod(u, 1.0) = u\<close> is negative, the sum \<open>u + 1.0\<close> rounds to \<open>1.0\<close>, the wrapped
  coordinate is \<open>1.0\<close>, the index is 64, and the pixel access raises.
\<close>

theorem sample_wrap_rounds_to_one:
  "float_mod1 (- (1 / 2 ^ 60)) = 1
   \<and> py_int (float_mod1 (- (1 / 2 ^ 60)) * of_int SIZE) = 64
   \<and> sample tex (- (1 / 2 ^ 60)) 0 = Inl IndexError"
proof -
  have "py_int (- (1 / 2 ^ 60)) = 0" by (simp add: py_int_def)
  then have m: "float_mod1 (- (1 / 2 ^ 60)) = 1"
    using round_just_below_one by (simp add: float_mod1_def Let_def)
  then show ?thesis
    by (simp add: sample_def pixel_access_def SIZE_def py_int_def Let_def)
qed

subsection \<open>Distance fog\<close>

text \<open>
  C8. The brightness of a distance never grows with the distance, lies between 0 and 1
  for every distance (a non-negative number), and is 0 from \<open>BLACK_DISTANCE\<close> on.
\<close>

theorem brightness_monotone_bounded:
  "(d1 \<le> d2 \<longrightarrow> brightness d2 \<le> brightness d1)
   \<and> 0 \<le> brightness d
   \<and> (0 \<le> d \<longrightarrow> brightness d \<le> 1)
   \<and> (BLACK_DISTANCE \<le> d \<longrightarrow> brightness d = 0)"
  by (auto simp: brightness_def BLACK_DISTANCE_def max_def)

theorem brightness_monotone_bounded_witness:
  "(1::real) \<le> 2 \<and> brightness 2 \<le> brightness 1 \<and> brightness 2 = 1 / 2
   \<and> (0::real) \<le> 2 \<and> brightness 2 \<le> 1
   \<and> BLACK_DISTANCE \<le> 5 \<and> brightness 5 = 0"
  using brightness_monotone_bounded [of 1 2 2] brightness_monotone_bounded [of 1 2 5]
  by (simp add: brightness_def BLACK_DISTANCE_def)

end
